theory Spec2Isabelle
  imports Complex_Main "HOL-Library.Multiset" "HOL-Library.AList"
begin

section \<open>Data model\<close>

text \<open>
  \<^verbatim>\<open>models/song.py\<close>: a \<^verbatim>\<open>Song\<close> carries seven attributes. \<^verbatim>\<open>Song.from_dict(s.to_dict())\<close>
  builds a fresh object with the same seven attribute values, so in a value model a copy
  is the song itself.
\<close>

record song =
  url :: string
  title :: string
  duration :: int
  thumbnail :: string
  uploader :: string
  webpage_url :: string
  requested_by :: string

definition copy_song :: "song \<Rightarrow> song" where
  "copy_song s =
     \<lparr>url = url s, title = title s, duration = duration s, thumbnail = thumbnail s,
      uploader = uploader s, webpage_url = webpage_url s, requested_by = requested_by s\<rparr>"

text \<open>
  The handle of the voice transport (\<^verbatim>\<open>discord.VoiceClient\<close>), as far as the engine
  observes it: \<^verbatim>\<open>is_connected()\<close>, \<^verbatim>\<open>is_playing()\<close>, \<^verbatim>\<open>is_paused()\<close>.
\<close>

record VoiceClient =
  is_connected :: bool
  is_playing :: bool
  is_paused :: bool

text \<open>
  \<^verbatim>\<open>MusicBot.get_guild_data\<close> (bot.py): the per-guild dictionary. Timestamps
  (\<^verbatim>\<open>datetime.now()\<close>, the event loop's clock) are real numbers of seconds;
  \<^verbatim>\<open>loop_mode\<close> is the string the code stores (\<^verbatim>\<open>"off"\<close>, \<^verbatim>\<open>"song"\<close>, \<^verbatim>\<open>"queue"\<close>).
\<close>

record guild_data =
  queue :: "song list"
  loop_backup :: "song list"
  history :: "song list"
  history_position :: int
  current :: "song option"
  position :: int
  seek_offset :: int
  loop_mode :: string
  shuffle :: bool
  volume :: int
  voice_client :: "VoiceClient option"
  intentional_disconnect :: bool
  last_activity :: real
  now_playing_message :: bool
  music_channel_id :: "nat option"
  start_time :: "real option"
  seeking :: bool

definition MAX_HISTORY_SIZE :: nat where
  "MAX_HISTORY_SIZE = 30"

definition new_guild_data :: "real \<Rightarrow> guild_data" where
  "new_guild_data now =
     \<lparr>queue = [], loop_backup = [], history = [], history_position = 0, current = None,
      position = 0, seek_offset = 0, loop_mode = ''off'', shuffle = False, volume = 100,
      voice_client = None, intentional_disconnect = False, last_activity = now,
      now_playing_message = False, music_channel_id = None, start_time = None,
      seeking = False\<rparr>"

section \<open>Python lists\<close>

datatype py_error = IndexError

text \<open>\<^verbatim>\<open>list.pop(i)\<close>: a negative index counts from the end; out of range raises.\<close>

definition py_pop :: "'a list \<Rightarrow> int \<Rightarrow> py_error + ('a \<times> 'a list)" where
  "py_pop xs i =
     (let n = int (length xs); j = (if i < 0 then i + n else i)
      in if 0 \<le> j \<and> j < n
         then Inr (xs ! nat j, take (nat j) xs @ drop (Suc (nat j)) xs)
         else Inl IndexError)"

text \<open>\<^verbatim>\<open>list.insert(i, x)\<close>: a negative index counts from the end; the index is then
  clipped into \<^verbatim>\<open>[0, len]\<close>, it never raises.\<close>

definition py_insert :: "'a list \<Rightarrow> int \<Rightarrow> 'a \<Rightarrow> 'a list" where
  "py_insert xs i x =
     (let n = int (length xs); j0 = (if i < 0 then i + n else i);
          j = (if j0 < 0 then 0 else if j0 > n then n else j0)
      in take (nat j) xs @ x # drop (nat j) xs)"

text \<open>\<^verbatim>\<open>xs[-k:]\<close> for a positive \<^verbatim>\<open>k\<close>: the last \<^verbatim>\<open>k\<close> elements, all of them when the
  list is shorter.\<close>

definition py_last_n :: "nat \<Rightarrow> 'a list \<Rightarrow> 'a list" where
  "py_last_n k xs = drop (length xs - k) xs"

text \<open>
  \<^verbatim>\<open>random.shuffle(x)\<close> (CPython): \<^verbatim>\<open>for i in reversed(range(1, len(x))): j = randbelow(i + 1);
  x[i], x[j] = x[j], x[i]\<close>. The draws come from the parameter \<open>rnd\<close>: \<open>rnd i\<close> is the
  value drawn at index \<open>i\<close>, reduced into \<^verbatim>\<open>range(i + 1)\<close>.
\<close>

fun shuffle_from :: "(nat \<Rightarrow> nat) \<Rightarrow> nat \<Rightarrow> 'a list \<Rightarrow> 'a list" where
  "shuffle_from rnd 0 xs = xs"
| "shuffle_from rnd (Suc i) xs =
     (let j = rnd (Suc i) mod (Suc (Suc i))
      in shuffle_from rnd i (xs[Suc i := xs ! j, j := xs ! Suc i]))"

definition py_shuffle :: "(nat \<Rightarrow> nat) \<Rightarrow> 'a list \<Rightarrow> 'a list" where
  "py_shuffle rnd xs = shuffle_from rnd (length xs - 1) xs"

section \<open>QueueService (services/queue\_service.py)\<close>

definition url_in :: "string \<Rightarrow> song list \<Rightarrow> bool" where
  "url_in u xs = (u \<in> set (map webpage_url xs))"

text \<open>\<^verbatim>\<open>sync_loop_backup\<close>: the loop over \<^verbatim>\<open>loop_backup\<close> with the set \<^verbatim>\<open>seen_urls\<close>.\<close>

fun dedup_by_url :: "string set \<Rightarrow> song list \<Rightarrow> song list" where
  "dedup_by_url seen [] = []"
| "dedup_by_url seen (s # ss) =
     (if webpage_url s \<notin> seen then s # dedup_by_url (insert (webpage_url s) seen) ss
      else dedup_by_url seen ss)"

definition sync_loop_backup :: "guild_data \<Rightarrow> bool \<Rightarrow> guild_data" where
  "sync_loop_backup g force_rebuild =
     (if force_rebuild then g\<lparr>loop_backup := dedup_by_url {} (loop_backup g)\<rparr> else g)"

definition add_to_history :: "guild_data \<Rightarrow> song \<Rightarrow> guild_data" where
  "add_to_history g s =
     (if url_in (webpage_url s) (history g) then g
      else
        let g1 = g\<lparr>history := history g @ [copy_song s]\<rparr>;
            g2 = g1\<lparr>history_position := int (length (history g1))\<rparr>;
            g3 = (if length (history g2) > MAX_HISTORY_SIZE
                  then
                    let g2' = g2\<lparr>history := py_last_n MAX_HISTORY_SIZE (history g2)\<rparr>
                    in g2'\<lparr>history_position :=
                              min (history_position g2') (int (length (history g2')))\<rparr>
                  else g2)
        in if \<not> url_in (webpage_url s) (loop_backup g3)
           then g3\<lparr>loop_backup := loop_backup g3 @ [copy_song s]\<rparr>
           else g3)"

text \<open>
  \<^verbatim>\<open>get_next_song\<close>. \<^verbatim>\<open>queue.pop(0)\<close> runs under \<^verbatim>\<open>if queue:\<close>, so it is the
  head of a non-empty list. The result is the returned song (or \<^verbatim>\<open>None\<close>) and the
  guild data after the call.
\<close>

definition get_next_song :: "(nat \<Rightarrow> nat) \<Rightarrow> guild_data \<Rightarrow> song option \<times> guild_data" where
  "get_next_song rnd g =
     (if loop_mode g = ''song'' \<and> current g \<noteq> None
      then (Some (copy_song (the (current g))), g)
      else case queue g of
        s # rest \<Rightarrow> (Some s, g\<lparr>queue := rest\<rparr>)
      | [] \<Rightarrow>
          if loop_mode g = ''queue'' \<and> loop_backup g \<noteq> []
          then
            let q0 = map copy_song (loop_backup g);
                q1 = (if shuffle g then py_shuffle rnd q0 else q0)
            in (case q1 of
                  s # rest \<Rightarrow> (Some s, g\<lparr>queue := rest\<rparr>)
                | [] \<Rightarrow> (None, g\<lparr>queue := []\<rparr>))
          else (None, g))"

definition clear_queue :: "guild_data \<Rightarrow> guild_data" where
  "clear_queue g = g\<lparr>queue := [], loop_backup := []\<rparr>"

definition remove_song_from_queue ::
  "guild_data \<Rightarrow> int \<Rightarrow> py_error + (song option \<times> guild_data)" where
  "remove_song_from_queue g pos =
     (if pos < 0 \<or> pos \<ge> int (length (queue g)) then Inr (None, g)
      else case py_pop (queue g) pos of
        Inl e \<Rightarrow> Inl e
      | Inr (s, q') \<Rightarrow> Inr (Some s, g\<lparr>queue := q'\<rparr>))"

definition move_song_in_queue ::
  "guild_data \<Rightarrow> int \<Rightarrow> int \<Rightarrow> py_error + (bool \<times> guild_data)" where
  "move_song_in_queue g from_pos to_pos =
     (if from_pos < 0 \<or> from_pos \<ge> int (length (queue g)) \<or>
         to_pos < 0 \<or> to_pos \<ge> int (length (queue g))
      then Inr (False, g)
      else case py_pop (queue g) from_pos of
        Inl e \<Rightarrow> Inl e
      | Inr (s, q') \<Rightarrow> Inr (True, g\<lparr>queue := py_insert q' to_pos s\<rparr>))"

definition add_song_to_queue :: "guild_data \<Rightarrow> song \<Rightarrow> guild_data" where
  "add_song_to_queue g s =
     g\<lparr>queue := queue g @ [s], loop_backup := loop_backup g @ [copy_song s]\<rparr>"

section \<open>Seek target (cogs/music\_commands.py, seek\_slash)\<close>

text \<open>The adjustment \<^verbatim>\<open>seek_slash\<close> applies to the parsed target before it seeks.\<close>

definition seek_clamp :: "song \<Rightarrow> int \<Rightarrow> int" where
  "seek_clamp current_song seek_seconds =
     (if seek_seconds < 0 then 0
      else if duration current_song > 0 \<and> seek_seconds \<ge> duration current_song - 5
      then max 0 (duration current_song - 5)
      else seek_seconds)"

section \<open>Song-info cache (services/music\_service.py)\<close>

text \<open>
  \<^verbatim>\<open>bot.song_cache\<close> is a dictionary from the normalised query to
  \<^verbatim>\<open>{"data": ..., "cached_at": ...}\<close>. Python dictionaries keep insertion order and
  \<^verbatim>\<open>_cleanup_cache_if_needed\<close> depends on it (\<^verbatim>\<open>sorted\<close> is stable), so the cache is an
  association list with distinct keys: assigning to a present key replaces the value in
  place, assigning to a new key appends.
\<close>

record 'd cache_entry =
  data :: 'd
  cached_at :: real

type_synonym 'd song_cache = "(string \<times> 'd cache_entry) list"

definition cache_ttl :: real where
  "cache_ttl = 3600"

definition max_cache_size :: nat where
  "max_cache_size = 500"

definition cleanup_cache_if_needed :: "'d song_cache \<Rightarrow> 'd song_cache" where
  "cleanup_cache_if_needed c =
     (if length c > max_cache_size
      then
        let sorted_items = sort_key (\<lambda>x. cached_at (snd x)) c
        in foldl (\<lambda>c' k. AList.delete k c') c (map fst (take 100 sorted_items))
      else c)"

text \<open>
  \<^verbatim>\<open>get_song_info_cached\<close>. \<open>normalise\<close> is \<^verbatim>\<open>lambda s: s.lower().strip()\<close>, the two
  string methods of Python (over all of Unicode) that make the cache key; \<open>resolve\<close> is
  \<^verbatim>\<open>get_song_info\<close> (the extraction backend), with \<open>None\<close> for a falsy result; \<open>now1\<close>
  is the clock read of the freshness test and \<open>now2\<close> the clock read after the
  resolution, when the entry is stored. The result is the returned data, the cache after
  the call, and whether the backend was called.
\<close>

definition get_song_info_cached ::
  "(string \<Rightarrow> string) \<Rightarrow> (string \<Rightarrow> 'd option) \<Rightarrow> real \<Rightarrow> real \<Rightarrow> 'd song_cache \<Rightarrow> string
     \<Rightarrow> 'd option \<times> 'd song_cache \<times> bool" where
  "get_song_info_cached normalise resolve now1 now2 cache url_or_query =
     (let cache_key = normalise url_or_query;
          cached = (case map_of cache cache_key of
                      Some cached_data \<Rightarrow>
                        if now1 - cached_at cached_data < cache_ttl
                        then Some (data cached_data) else None
                    | None \<Rightarrow> None)
      in case cached of
           Some d \<Rightarrow> (Some d, cache, False)
         | None \<Rightarrow>
             (case resolve url_or_query of
                Some d \<Rightarrow>
                  (Some d,
                   cleanup_cache_if_needed
                     (AList.update cache_key \<lparr>data = d, cached_at = now2\<rparr> cache),
                   True)
              | None \<Rightarrow> (None, cache, True)))"

section \<open>PlaybackService (services/playback\_service.py)\<close>

text \<open>
  The dictionary \<^verbatim>\<open>get_song_info\<close> returns, as far as \<^verbatim>\<open>_extract_and_play_song\<close> reads
  it with \<^verbatim>\<open>fresh_data.get(...)\<close>: an absent or falsy entry is the empty string (or 0).
\<close>

record track_info =
  info_url :: string
  info_title :: string
  info_duration :: int
  info_thumbnail :: string
  info_uploader :: string

text \<open>What the engine does to the outside, in the order it does it.\<close>

datatype event =
    SongSkipped string      \<comment> \<open>\<^verbatim>\<open>channel.send\<close> of the "Song Skipped" embed, with the title\<close>
  | PlaybackStopped         \<comment> \<open>\<^verbatim>\<open>channel.send\<close> of the "Playback Stopped" embed\<close>
  | ConnectionLost          \<comment> \<open>\<^verbatim>\<open>channel.send\<close> of the "Voice Connection Lost" embed\<close>
  | QueueEmptyShown         \<comment> \<open>the now-playing message edited to "Queue Empty"\<close>
  | UpdateNowPlaying        \<comment> \<open>\<^verbatim>\<open>music_cog.update_now_playing\<close>\<close>
  | SaveGuildQueue          \<comment> \<open>\<^verbatim>\<open>bot.save_guild_queue\<close>\<close>
  | ClearGuildQueueFromDb   \<comment> \<open>\<^verbatim>\<open>bot.clear_guild_queue_from_db\<close>\<close>
  | VoicePlay song          \<comment> \<open>\<^verbatim>\<open>voice_client.play(source, ...)\<close>\<close>
  | ReconnectScheduled nat  \<comment> \<open>\<^verbatim>\<open>asyncio.create_task(_attempt_voice_reconnect(...))\<close>\<close>

text \<open>How \<^verbatim>\<open>_start_playback\<close> ends: without an exception, with one raised while the audio
  source is built (before any assignment), or with one raised by \<^verbatim>\<open>voice_client.play\<close>
  (after \<^verbatim>\<open>current\<close> is assigned).\<close>

datatype start_result = StartOk | SourceError | PlayError

text \<open>What \<^verbatim>\<open>voice_channel.connect\<close> does in \<^verbatim>\<open>_attempt_voice_reconnect\<close>.\<close>

datatype connect_result =
    Connected VoiceClient
  | AlreadyConnected      \<comment> \<open>\<^verbatim>\<open>discord.ClientException\<close> saying "already connected"\<close>
  | ClientError           \<comment> \<open>any other \<^verbatim>\<open>discord.ClientException\<close>\<close>
  | TimeoutError
  | OtherError

text \<open>
  The collaborators, as oracles. \<open>get_song_info n u\<close> is what the call number \<open>n\<close> of
  \<^verbatim>\<open>bot.get_song_info\<close> returns for the page \<open>u\<close> (\<open>None\<close>: it returned \<^verbatim>\<open>None\<close> or
  something \<^verbatim>\<open>.get\<close> fails on); \<open>start_outcome n\<close> is how a \<^verbatim>\<open>_start_playback\<close> entered
  after \<open>n\<close> such calls ends; \<open>music_cog\<close> says that the cog is loaded and
  \<open>music_channel\<close> that \<^verbatim>\<open>get_music_channel\<close> finds a channel; \<open>rng n\<close> are the draws
  of a shuffle after \<open>n\<close> calls; \<open>now\<close> is \<^verbatim>\<open>datetime.now()\<close>.
\<close>

record env =
  get_song_info :: "nat \<Rightarrow> string \<Rightarrow> track_info option"
  start_outcome :: "nat \<Rightarrow> start_result"
  music_cog :: bool
  music_channel :: bool
  get_channel :: "nat \<Rightarrow> bool"
  guild_voice_client :: "VoiceClient option"
  connect :: connect_result
  rng :: "nat \<Rightarrow> nat \<Rightarrow> nat"
  now :: real

text \<open>The guild data, the number of \<^verbatim>\<open>get_song_info\<close> calls so far, and the events so far.\<close>

record sys =
  gd :: guild_data
  calls :: nat
  log :: "event list"

definition emit :: "event \<Rightarrow> sys \<Rightarrow> sys" where
  "emit ev w = w\<lparr>log := log w @ [ev]\<rparr>"

definition handle_song_skip :: "env \<Rightarrow> sys \<Rightarrow> song \<Rightarrow> sys" where
  "handle_song_skip e w s =
     (let w1 = (if loop_mode (gd w) \<noteq> ''song'' then w\<lparr>gd := add_to_history (gd w) s\<rparr> else w);
          w2 = (if music_cog e \<and> music_channel e then emit (SongSkipped (title s)) w1 else w1)
      in if loop_mode (gd w2) = ''song'' then w2\<lparr>gd := (gd w2)\<lparr>loop_mode := ''off''\<rparr>\<rparr> else w2)"

definition handle_max_retries_exceeded :: "env \<Rightarrow> sys \<Rightarrow> sys" where
  "handle_max_retries_exceeded e w =
     (let w1 = w\<lparr>gd := (gd w)\<lparr>current := None, start_time := None\<rparr>\<rparr>;
          w2 = emit SaveGuildQueue w1
      in if music_cog e \<and> music_channel e then emit PlaybackStopped w2 else w2)"

definition handle_empty_queue :: "env \<Rightarrow> sys \<Rightarrow> sys" where
  "handle_empty_queue e w =
     (let w1 = w\<lparr>gd := (gd w)\<lparr>current := None, position := 0, start_time := None,
                              last_activity := now e\<rparr>\<rparr>;
          w2 = (if now_playing_message (gd w1)
                then (emit QueueEmptyShown w1)\<lparr>gd := (gd w1)\<lparr>now_playing_message := False\<rparr>\<rparr>
                else w1)
      in emit SaveGuildQueue w2)"

text \<open>The assignments of \<^verbatim>\<open>_start_playback\<close> before \<^verbatim>\<open>voice_client.play\<close>.\<close>

definition set_current :: "env \<Rightarrow> guild_data \<Rightarrow> song \<Rightarrow> guild_data" where
  "set_current e g s =
     g\<lparr>current := Some s, seek_offset := 0, position := 0, start_time := Some (now e),
       last_activity := now e\<rparr>"

definition start_playback :: "env \<Rightarrow> sys \<Rightarrow> song \<Rightarrow> bool \<times> sys" where
  "start_playback e w s =
     (case start_outcome e (calls w) of
        SourceError \<Rightarrow> (False, handle_song_skip e w s)
      | PlayError \<Rightarrow> (False, handle_song_skip e (w\<lparr>gd := set_current e (gd w) s\<rparr>) s)
      | StartOk \<Rightarrow>
          (case voice_client (gd w) of
             None \<Rightarrow> (False, handle_song_skip e (w\<lparr>gd := set_current e (gd w) s\<rparr>) s)
           | Some vc \<Rightarrow>
               let g1 = (set_current e (gd w) s)
                          \<lparr>voice_client := Some (vc\<lparr>is_playing := True, is_paused := False\<rparr>)\<rparr>;
                   w1 = emit (VoicePlay s) (w\<lparr>gd := g1\<rparr>);
                   w2 = (if music_cog e then emit UpdateNowPlaying w1 else w1)
               in (True, emit SaveGuildQueue w2)))"

text \<open>The assignments to the song after a successful extraction.\<close>

definition refresh_song :: "song \<Rightarrow> track_info \<Rightarrow> song" where
  "refresh_song s d =
     (let s1 = s\<lparr>url := info_url d\<rparr>;
          s2 = (if info_title d \<noteq> [] then s1\<lparr>title := info_title d\<rparr> else s1);
          s3 = (if info_duration d \<noteq> 0 then s2\<lparr>duration := info_duration d\<rparr> else s2);
          s4 = (if info_thumbnail d \<noteq> [] then s3\<lparr>thumbnail := info_thumbnail d\<rparr> else s3)
      in if info_uploader d \<noteq> [] then s4\<lparr>uploader := info_uploader d\<rparr> else s4)"

definition max_retries :: nat where
  "max_retries = 3"

text \<open>
  \<^verbatim>\<open>_extract_and_play_song\<close>: \<open>extract_from e r w s\<close> is the \<^verbatim>\<open>for attempt in
  range(max_retries)\<close> loop with \<open>r\<close> attempts left, followed by the code after the loop.
  The sleeps between attempts and the \<^verbatim>\<open>HEAD\<close> request (whose failure is only logged)
  change nothing.
\<close>

definition no_stream_url :: "track_info option \<Rightarrow> bool" where
  \<comment> \<open>\<^verbatim>\<open>not fresh_data or not fresh_data.get("url")\<close>\<close>
  "no_stream_url fresh_data = (case fresh_data of None \<Rightarrow> True | Some d \<Rightarrow> info_url d = [])"

fun extract_from :: "env \<Rightarrow> nat \<Rightarrow> sys \<Rightarrow> song \<Rightarrow> bool \<times> sys" where
  "extract_from e 0 w s = (False, handle_song_skip e w s)"
| "extract_from e (Suc r) w s =
     (let fresh_data = get_song_info e (calls w) (webpage_url s);
          w1 = w\<lparr>calls := Suc (calls w)\<rparr>
      in if no_stream_url fresh_data then extract_from e r w1 s
         else start_playback e w1 (refresh_song s (the fresh_data)))"

definition extract_and_play_song :: "env \<Rightarrow> sys \<Rightarrow> song \<Rightarrow> bool \<times> sys" where
  "extract_and_play_song e w s = extract_from e max_retries w s"

definition max_skip_attempts :: nat where
  "max_skip_attempts = 10"

text \<open>
  The \<^verbatim>\<open>while skip_count < max_skip_attempts\<close> loop of \<^verbatim>\<open>play_next\<close> with
  \<open>r = max_skip_attempts - skip_count\<close> iterations left, followed by the test after the
  loop: it is left with \<open>skip_count \<ge> max_skip_attempts\<close> exactly when no iteration is
  left.
\<close>

fun play_loop :: "env \<Rightarrow> nat \<Rightarrow> sys \<Rightarrow> sys" where
  "play_loop e 0 w = handle_max_retries_exceeded e w"
| "play_loop e (Suc r) w =
     (case get_next_song (rng e (calls w)) (gd w) of
        (None, g') \<Rightarrow> handle_empty_queue e (w\<lparr>gd := g'\<rparr>)
      | (Some next_song, g') \<Rightarrow>
          (case extract_and_play_song e (w\<lparr>gd := g'\<rparr>) next_song of
             (True, w') \<Rightarrow> w'
           | (False, w') \<Rightarrow> play_loop e r w'))"

definition play_next :: "env \<Rightarrow> sys \<Rightarrow> sys" where
  "play_next e w =
     (let g = gd w in
      if seeking g then w
      else if current g \<noteq> None \<and> voice_client g \<noteq> None \<and>
              (is_playing (the (voice_client g)) \<or> is_paused (the (voice_client g)))
      then w
      else if voice_client g = None \<or> \<not> is_connected (the (voice_client g))
      then w\<lparr>gd := g\<lparr>current := None, position := 0, start_time := None,
                      last_activity := now e\<rparr>\<rparr>
      else play_loop e max_skip_attempts w)"


section \<open>Voice reconnection (bot.py)\<close>



text \<open>The first two statements of the \<^verbatim>\<open>if guild_data.get("current")\<close> branch of
  \<^verbatim>\<open>_resume_playback_after_reconnect\<close>: the state it hands to \<^verbatim>\<open>play_next\<close>.\<close>

definition requeue_current :: "guild_data \<Rightarrow> song \<Rightarrow> guild_data" where
  "requeue_current g current_song =
     (let g1 = g\<lparr>current := None\<rparr> in g1\<lparr>queue := py_insert (queue g1) 0 current_song\<rparr>)"

definition resume_playback_after_reconnect :: "env \<Rightarrow> sys \<Rightarrow> sys" where
  "resume_playback_after_reconnect e w =
     (case current (gd w) of
        Some current_song \<Rightarrow> play_next e (w\<lparr>gd := requeue_current (gd w) current_song\<rparr>)
      | None \<Rightarrow> if queue (gd w) \<noteq> [] then play_next e w else w)"




section \<open>Notions used in the statements\<close>

text \<open>\<^verbatim>\<open>Song({"webpage_url": u})\<close>: the constructor fills in its defaults.\<close>

definition song_of_url :: "string \<Rightarrow> song" where
  "song_of_url u =
     \<lparr>url = [], title = ''Unknown Title'', duration = 0, thumbnail = [],
      uploader = ''Unknown'', webpage_url = u, requested_by = ''Unknown''\<rparr>"

text \<open>The invariant of \<^verbatim>\<open>history\<close>: bounded, and no page twice.\<close>

definition history_ok :: "guild_data \<Rightarrow> bool" where
  "history_ok g =
     (length (history g) \<le> MAX_HISTORY_SIZE \<and> distinct (map webpage_url (history g)))"

text \<open>The candidates of \<open>r\<close> iterations of the \<^verbatim>\<open>play_next\<close> loop cannot run out: the
  queue holds \<open>r\<close> songs, or queue repeat is on and the loop backup is not empty.\<close>

definition candidates :: "nat \<Rightarrow> guild_data \<Rightarrow> bool" where
  "candidates r g = (r \<le> length (queue g) \<or> (loop_mode g = ''queue'' \<and> loop_backup g \<noteq> []))"

subsection \<open>Concrete collaborators and guilds\<close>

text \<open>A connected voice client that neither plays nor is paused.\<close>

definition live_voice :: VoiceClient where
  "live_voice = \<lparr>is_connected = True, is_playing = False, is_paused = False\<rparr>"

text \<open>An extraction backend that never finds a stream, with a music channel to post in.\<close>

definition failing_env :: env where
  "failing_env =
     \<lparr>get_song_info = (\<lambda>n u. None), start_outcome = (\<lambda>n. StartOk), music_cog = True,
      music_channel = True, get_channel = (\<lambda>c. True), guild_voice_client = None,
      connect = TimeoutError, rng = (\<lambda>n i. 0), now = 0\<rparr>"





text \<open>A connected guild under queue repeat whose loop backup holds one song.\<close>

definition stuck_sys :: sys where
  "stuck_sys =
     \<lparr>gd = (new_guild_data 0)\<lparr>loop_backup := [song_of_url ''a''], loop_mode := ''queue'',
                              voice_client := Some live_voice\<rparr>,
      calls = 0, log = []\<rparr>"


section \<open>Python lists: facts\<close>

lemma copy_song_id: "copy_song s = s"
  by (simp add: copy_song_def)

lemma map_copy_song: "map copy_song xs = xs"
  by (induction xs) (simp_all add: copy_song_id)

lemma py_pop_in_range:
  "0 \<le> i \<Longrightarrow> i < int (length xs) \<Longrightarrow>
     py_pop xs i = Inr (xs ! nat i, take (nat i) xs @ drop (Suc (nat i)) xs)"
  by (simp add: py_pop_def Let_def)

lemma py_insert_in_range:
  "0 \<le> i \<Longrightarrow> i \<le> int (length xs) \<Longrightarrow>
     py_insert xs i x = take (nat i) xs @ x # drop (nat i) xs"
  by (simp add: py_insert_def Let_def)

lemma remove_from_inserted:
  "n \<le> length xs \<Longrightarrow>
     (take n xs @ x # drop n xs) ! n = x \<and>
     take n (take n xs @ x # drop n xs) @ drop (Suc n) (take n xs @ x # drop n xs) = xs"
  by (simp add: nth_append min_def)

lemma length_py_last_n: "length (py_last_n k xs) \<le> k"
  by (simp add: py_last_n_def)

lemma distinct_urls_py_last_n:
  "distinct (map webpage_url xs) \<Longrightarrow> distinct (map webpage_url (py_last_n k xs))"
  by (simp add: py_last_n_def flip: drop_map)

text \<open>A shuffle permutes: every swap exchanges two positions inside the list.\<close>

lemma mset_shuffle_from: "i < length xs \<Longrightarrow> mset (shuffle_from rnd i xs) = mset xs"
proof (induction i arbitrary: xs)
  case 0
  then show ?case by simp
next
  case (Suc i)
  let ?j = "rnd (Suc i) mod Suc (Suc i)"
  have "?j < Suc (Suc i)" by simp
  then have j: "?j < length xs" using Suc.prems by linarith
  have "mset (xs[Suc i := xs ! ?j, ?j := xs ! Suc i]) = mset xs"
    using mset_swap[OF j Suc.prems] by simp
  moreover have "i < length (xs[Suc i := xs ! ?j, ?j := xs ! Suc i])"
    using Suc.prems by simp
  ultimately show ?case using Suc.IH by (simp add: Let_def)
qed

lemma mset_py_shuffle: "mset (py_shuffle rnd xs) = mset xs"
proof (cases xs)
  case Nil
  then show ?thesis by (simp add: py_shuffle_def)
next
  case (Cons a list)
  then show ?thesis by (simp add: py_shuffle_def mset_shuffle_from)
qed

lemma py_shuffle_Nil_iff: "py_shuffle rnd xs = [] \<longleftrightarrow> xs = []"
  using mset_py_shuffle[of rnd xs] by (metis mset_zero_iff)

section \<open>The queue policy\<close>

lemma get_next_song_cases:
  "get_next_song rnd g =
     (if loop_mode g = ''song'' \<and> current g \<noteq> None then (current g, g)
      else if queue g \<noteq> [] then (Some (hd (queue g)), g\<lparr>queue := tl (queue g)\<rparr>)
      else if loop_mode g = ''queue'' \<and> loop_backup g \<noteq> []
      then (let q = (if shuffle g then py_shuffle rnd (loop_backup g) else loop_backup g)
            in (Some (hd q), g\<lparr>queue := tl q\<rparr>))
      else (None, g))"
  by (auto simp: get_next_song_def copy_song_id map_copy_song Let_def py_shuffle_Nil_iff
        split: list.splits)

text \<open>
  C1. \<^verbatim>\<open>get_next_song\<close> follows the policy, case by case and in this order: under song
  repeat with a current song it returns (a copy of) the current song and changes nothing;
  else it pops the front of a non-empty queue; else, under queue repeat with a non-empty
  loop backup, the queue is rebuilt from the loop backup (shuffled when \<^verbatim>\<open>shuffle\<close> is
  set) and its front is popped; else it returns \<^verbatim>\<open>None\<close> and changes nothing. A shuffle
  is a permutation, so the rebuilt queue is never empty.
\<close>

theorem get_next_song_policy:
  "get_next_song rnd g =
     (if loop_mode g = ''song'' \<and> current g \<noteq> None then (current g, g)
      else if queue g \<noteq> [] then (Some (hd (queue g)), g\<lparr>queue := tl (queue g)\<rparr>)
      else if loop_mode g = ''queue'' \<and> loop_backup g \<noteq> []
      then (let q = (if shuffle g then py_shuffle rnd (loop_backup g) else loop_backup g)
            in (Some (hd q), g\<lparr>queue := tl q\<rparr>))
      else (None, g))
   \<and> mset (py_shuffle rnd (loop_backup g)) = mset (loop_backup g)
   \<and> (py_shuffle rnd (loop_backup g) = []) = (loop_backup g = [])"
  by (auto simp: get_next_song_def copy_song_id map_copy_song Let_def mset_py_shuffle
        py_shuffle_Nil_iff split: list.splits)

text \<open>
  C2. \<^verbatim>\<open>add_song_to_queue\<close> appends to \<^verbatim>\<open>loop_backup\<close> without looking at what is
  there: enqueueing the same page twice into a new guild leaves it twice in
  \<^verbatim>\<open>loop_backup\<close>.
\<close>

theorem add_song_to_queue_twice_duplicates:
  "loop_backup (add_song_to_queue (add_song_to_queue (new_guild_data 0) (song_of_url ''a''))
      (song_of_url ''a'')) = [song_of_url ''a'', song_of_url ''a'']
   \<and> \<not> distinct (map webpage_url (loop_backup
        (add_song_to_queue (add_song_to_queue (new_guild_data 0) (song_of_url ''a''))
           (song_of_url ''a''))))"
  by (simp add: add_song_to_queue_def new_guild_data_def copy_song_id)

section \<open>The history\<close>

lemma history_add_to_history:
  "history (add_to_history g s) =
     (if url_in (webpage_url s) (history g) then history g
      else py_last_n MAX_HISTORY_SIZE (history g @ [s]))"
  by (simp add: add_to_history_def Let_def copy_song_id py_last_n_def MAX_HISTORY_SIZE_def)

lemma history_position_add_to_history:
  "\<not> url_in (webpage_url s) (history g) \<Longrightarrow>
     history_position (add_to_history g s) = int (length (history (add_to_history g s)))"
  by (simp add: add_to_history_def Let_def py_last_n_def MAX_HISTORY_SIZE_def)

lemma history_ok_add_to_history: "history_ok g \<Longrightarrow> history_ok (add_to_history g s)"
proof (cases "url_in (webpage_url s) (history g)")
  case True
  assume "history_ok g"
  with True show ?thesis by (simp add: add_to_history_def)
next
  case False
  assume ok: "history_ok g"
  have "distinct (map webpage_url (history g @ [s]))"
    using ok False by (simp add: history_ok_def url_in_def)
  then show ?thesis
    using False
    by (simp only: history_ok_def history_add_to_history if_False length_py_last_n
          distinct_urls_py_last_n simp_thms)
qed

lemma history_ok_foldl: "history_ok g \<Longrightarrow> history_ok (foldl add_to_history g ss)"
  by (induction ss arbitrary: g) (simp_all add: history_ok_add_to_history)

text \<open>
  C3. From a guild whose history holds at most \<^verbatim>\<open>MAX_HISTORY_SIZE\<close> = 30 songs with
  distinct pages (a new guild's is empty), after any sequence \<open>ss\<close> of \<^verbatim>\<open>add_to_history\<close>
  calls the history still holds at most 30 songs with distinct pages. A call that appends
  (the page is not in the history) leaves the last 30 entries of the extended history, so
  the oldest are dropped first, and sets \<^verbatim>\<open>history_position\<close> to the new length.
\<close>

theorem add_to_history_bounded_distinct:
  assumes "length (history g) \<le> MAX_HISTORY_SIZE"
    and "distinct (map webpage_url (history g))"
  shows "MAX_HISTORY_SIZE = 30
     \<and> length (history (foldl add_to_history g ss)) \<le> MAX_HISTORY_SIZE
     \<and> distinct (map webpage_url (history (foldl add_to_history g ss)))
     \<and> (webpage_url s \<notin> set (map webpage_url (history g)) \<longrightarrow>
          history (add_to_history g s) = py_last_n MAX_HISTORY_SIZE (history g @ [s])
          \<and> history_position (add_to_history g s)
              = int (length (history (add_to_history g s))))"
proof -
  have "history_ok g" using assms by (simp add: history_ok_def)
  then have "history_ok (foldl add_to_history g ss)" by (rule history_ok_foldl)
  then show ?thesis
    using history_position_add_to_history[of s g]
    by (simp add: history_ok_def history_add_to_history url_in_def MAX_HISTORY_SIZE_def)
qed

theorem add_to_history_bounded_distinct_witness:
  "length (history ((new_guild_data 0)\<lparr>history := [song_of_url ''a'', song_of_url ''b'']\<rparr>))
      \<le> MAX_HISTORY_SIZE
   \<and> distinct (map webpage_url
        (history ((new_guild_data 0)\<lparr>history := [song_of_url ''a'', song_of_url ''b'']\<rparr>)))
   \<and> length (history (foldl add_to_history
        ((new_guild_data 0)\<lparr>history := [song_of_url ''a'', song_of_url ''b'']\<rparr>)
        [song_of_url ''c'', song_of_url ''a''])) \<le> MAX_HISTORY_SIZE
   \<and> distinct (map webpage_url (history (foldl add_to_history
        ((new_guild_data 0)\<lparr>history := [song_of_url ''a'', song_of_url ''b'']\<rparr>)
        [song_of_url ''c'', song_of_url ''a''])))
   \<and> history (add_to_history
        ((new_guild_data 0)\<lparr>history := [song_of_url ''a'', song_of_url ''b'']\<rparr>)
        (song_of_url ''c''))
       = [song_of_url ''a'', song_of_url ''b'', song_of_url ''c'']
   \<and> history_position (add_to_history
        ((new_guild_data 0)\<lparr>history := [song_of_url ''a'', song_of_url ''b'']\<rparr>)
        (song_of_url ''c'')) = 3"
  using add_to_history_bounded_distinct
    [of "(new_guild_data 0)\<lparr>history := [song_of_url ''a'', song_of_url ''b'']\<rparr>"
        "[song_of_url ''c'', song_of_url ''a'']" "song_of_url ''c''"]
  by (simp add: new_guild_data_def song_of_url_def MAX_HISTORY_SIZE_def py_last_n_def)

text \<open>
  C10. A song whose page is already in the history makes \<^verbatim>\<open>add_to_history\<close> return at
  once: the guild data is left as it was, history, \<^verbatim>\<open>history_position\<close> and
  \<^verbatim>\<open>loop_backup\<close> included.
\<close>

theorem add_to_history_known_url_noop:
  "webpage_url s \<in> set (map webpage_url (history g)) \<Longrightarrow> add_to_history g s = g"
  by (simp add: add_to_history_def url_in_def)

theorem add_to_history_known_url_noop_witness:
  "webpage_url (song_of_url ''a'')
     \<in> set (map webpage_url (history ((new_guild_data 0)\<lparr>history := [song_of_url ''a'']\<rparr>)))
   \<and> add_to_history ((new_guild_data 0)\<lparr>history := [song_of_url ''a'']\<rparr>) (song_of_url ''a'')
       = (new_guild_data 0)\<lparr>history := [song_of_url ''a'']\<rparr>"
proof -
  have h: "webpage_url (song_of_url ''a'')
     \<in> set (map webpage_url (history ((new_guild_data 0)\<lparr>history := [song_of_url ''a'']\<rparr>)))"
    by simp
  from add_to_history_known_url_noop[OF h] h show ?thesis by simp
qed

section \<open>Removing and moving\<close>

lemma pop_then_insert:
  assumes f: "f < length q" and t: "t < length q"
  shows "\<exists>q'. py_insert (take f q @ drop (Suc f) q) (int t) (q ! f) = q'
          \<and> length q' = length q
          \<and> q' ! t = q ! f
          \<and> take t q' @ drop (Suc t) q' = take f q @ drop (Suc f) q"
proof -
  let ?q1 = "take f q @ drop (Suc f) q"
  have len1: "length ?q1 = length q - 1" using f by simp
  then have t1: "t \<le> length ?q1" using t by simp
  then have ins: "py_insert ?q1 (int t) (q ! f) = take t ?q1 @ q ! f # drop t ?q1"
    using py_insert_in_range[of "int t" ?q1 "q ! f"] by simp
  have len': "length (take t ?q1 @ q ! f # drop t ?q1) = length q"
    using t1 len1 f by simp
  show ?thesis
    unfolding ins using remove_from_inserted[OF t1, of "q ! f"] len' by blast
qed

lemma remove_out_of_range:
  "pos < 0 \<or> pos \<ge> int (length (queue g)) \<Longrightarrow> remove_song_from_queue g pos = Inr (None, g)"
  by (simp add: remove_song_from_queue_def)

lemma remove_in_range:
  "0 \<le> pos \<and> pos < int (length (queue g)) \<Longrightarrow>
     remove_song_from_queue g pos =
       Inr (Some (queue g ! nat pos),
            g\<lparr>queue := take (nat pos) (queue g) @ drop (Suc (nat pos)) (queue g)\<rparr>)"
  by (simp add: remove_song_from_queue_def py_pop_in_range)

lemma move_out_of_range:
  "from_pos < 0 \<or> from_pos \<ge> int (length (queue g)) \<or>
   to_pos < 0 \<or> to_pos \<ge> int (length (queue g)) \<Longrightarrow>
     move_song_in_queue g from_pos to_pos = Inr (False, g)"
  by (simp add: move_song_in_queue_def)

lemma move_in_range:
  assumes "0 \<le> from_pos \<and> from_pos < int (length (queue g)) \<and>
           0 \<le> to_pos \<and> to_pos < int (length (queue g))"
  shows "move_song_in_queue g from_pos to_pos =
     Inr (True, g\<lparr>queue := py_insert (take (nat from_pos) (queue g)
                                        @ drop (Suc (nat from_pos)) (queue g))
                                (int (nat to_pos)) (queue g ! nat from_pos)\<rparr>)"
  using assms by (simp add: move_song_in_queue_def py_pop_in_range)

text \<open>
  C9. \<^verbatim>\<open>remove_song_from_queue\<close> and \<^verbatim>\<open>move_song_in_queue\<close> never raise. With an index
  outside \<^verbatim>\<open>[0, len(queue) - 1]\<close> they return \<^verbatim>\<open>None\<close> and \<^verbatim>\<open>False\<close> and leave the guild
  data as it was. With valid indices, the removal returns the song at the position and
  the queue without it; the move returns \<^verbatim>\<open>True\<close> and a queue of the same length that
  has the moved song at \<^verbatim>\<open>to_pos\<close> and, that entry taken out, is the old queue with the
  entry at \<^verbatim>\<open>from_pos\<close> taken out: the other songs keep their order.
\<close>

theorem remove_move_bounds_checked:
  "((pos < 0 \<or> pos \<ge> int (length (queue g))) \<longrightarrow>
       remove_song_from_queue g pos = Inr (None, g))
   \<and> ((0 \<le> pos \<and> pos < int (length (queue g))) \<longrightarrow>
       remove_song_from_queue g pos =
         Inr (Some (queue g ! nat pos),
              g\<lparr>queue := take (nat pos) (queue g) @ drop (Suc (nat pos)) (queue g)\<rparr>))
   \<and> ((from_pos < 0 \<or> from_pos \<ge> int (length (queue g)) \<or>
        to_pos < 0 \<or> to_pos \<ge> int (length (queue g))) \<longrightarrow>
       move_song_in_queue g from_pos to_pos = Inr (False, g))
   \<and> ((0 \<le> from_pos \<and> from_pos < int (length (queue g)) \<and>
        0 \<le> to_pos \<and> to_pos < int (length (queue g))) \<longrightarrow>
       (\<exists>q'. move_song_in_queue g from_pos to_pos = Inr (True, g\<lparr>queue := q'\<rparr>)
          \<and> length q' = length (queue g)
          \<and> q' ! nat to_pos = queue g ! nat from_pos
          \<and> take (nat to_pos) q' @ drop (Suc (nat to_pos)) q'
              = take (nat from_pos) (queue g) @ drop (Suc (nat from_pos)) (queue g)))"
proof (intro conjI impI)
  assume "pos < 0 \<or> pos \<ge> int (length (queue g))"
  then show "remove_song_from_queue g pos = Inr (None, g)"
    by (rule remove_out_of_range)
next
  assume "0 \<le> pos \<and> pos < int (length (queue g))"
  then show "remove_song_from_queue g pos =
         Inr (Some (queue g ! nat pos),
              g\<lparr>queue := take (nat pos) (queue g) @ drop (Suc (nat pos)) (queue g)\<rparr>)"
    by (rule remove_in_range)
next
  assume "from_pos < 0 \<or> from_pos \<ge> int (length (queue g)) \<or>
        to_pos < 0 \<or> to_pos \<ge> int (length (queue g))"
  then show "move_song_in_queue g from_pos to_pos = Inr (False, g)"
    by (rule move_out_of_range)
next
  assume r: "0 \<le> from_pos \<and> from_pos < int (length (queue g)) \<and>
        0 \<le> to_pos \<and> to_pos < int (length (queue g))"
  have f: "nat from_pos < length (queue g)" and t: "nat to_pos < length (queue g)"
    using r by linarith+
  from pop_then_insert[OF f t] move_in_range[OF r]
  show "\<exists>q'. move_song_in_queue g from_pos to_pos = Inr (True, g\<lparr>queue := q'\<rparr>)
          \<and> length q' = length (queue g)
          \<and> q' ! nat to_pos = queue g ! nat from_pos
          \<and> take (nat to_pos) q' @ drop (Suc (nat to_pos)) q'
              = take (nat from_pos) (queue g) @ drop (Suc (nat from_pos)) (queue g)"
    by (elim exE conjE, intro exI conjI) (simp_all only:)
qed

theorem remove_move_bounds_checked_witness:
  "remove_song_from_queue
      ((new_guild_data 0)\<lparr>queue := [song_of_url ''a'', song_of_url ''b'', song_of_url ''c'']\<rparr>) 3
     = Inr (None,
        (new_guild_data 0)\<lparr>queue := [song_of_url ''a'', song_of_url ''b'', song_of_url ''c'']\<rparr>)
   \<and> remove_song_from_queue
      ((new_guild_data 0)\<lparr>queue := [song_of_url ''a'', song_of_url ''b'', song_of_url ''c'']\<rparr>) 1
     = Inr (Some (song_of_url ''b''),
        (new_guild_data 0)\<lparr>queue := [song_of_url ''a'', song_of_url ''c'']\<rparr>)
   \<and> move_song_in_queue
      ((new_guild_data 0)\<lparr>queue := [song_of_url ''a'', song_of_url ''b'', song_of_url ''c'']\<rparr>)
      0 (- 1)
     = Inr (False,
        (new_guild_data 0)\<lparr>queue := [song_of_url ''a'', song_of_url ''b'', song_of_url ''c'']\<rparr>)
   \<and> move_song_in_queue
      ((new_guild_data 0)\<lparr>queue := [song_of_url ''a'', song_of_url ''b'', song_of_url ''c'']\<rparr>)
      0 2
     = Inr (True,
        (new_guild_data 0)\<lparr>queue := [song_of_url ''b'', song_of_url ''c'', song_of_url ''a'']\<rparr>)"
proof -
  let ?g = "(new_guild_data 0)\<lparr>queue := [song_of_url ''a'', song_of_url ''b'', song_of_url ''c'']\<rparr>"
  have p1: "(3::int) < 0 \<or> 3 \<ge> int (length (queue ?g))" by simp
  have p2: "(0::int) < 0 \<or> 0 \<ge> int (length (queue ?g)) \<or>
            (- 1::int) < 0 \<or> - 1 \<ge> int (length (queue ?g))" by simp
  have p3: "(0::int) \<le> 1 \<and> 1 < int (length (queue ?g))" by simp
  have nth: "queue ?g ! nat 1 = song_of_url ''b''" by simp
  have rest: "?g\<lparr>queue := take (nat 1) (queue ?g) @ drop (Suc (nat 1)) (queue ?g)\<rparr>
      = (new_guild_data 0)\<lparr>queue := [song_of_url ''a'', song_of_url ''c'']\<rparr>"
    by simp
  note out = remove_move_bounds_checked[of 3 ?g 0 "- 1"]
  note inside = remove_move_bounds_checked[of 1 ?g 0 2]
  have r1: "remove_song_from_queue ?g 3 = Inr (None, ?g)"
    by (rule out[THEN conjunct1, THEN mp, OF p1])
  have m1: "move_song_in_queue ?g 0 (- 1) = Inr (False, ?g)"
    by (rule out[THEN conjunct2, THEN conjunct2, THEN conjunct1, THEN mp, OF p2])
  have "remove_song_from_queue ?g 1 =
         Inr (Some (queue ?g ! nat 1),
              ?g\<lparr>queue := take (nat 1) (queue ?g) @ drop (Suc (nat 1)) (queue ?g)\<rparr>)"
    by (rule inside[THEN conjunct2, THEN conjunct1, THEN mp, OF p3])
  then have r2: "remove_song_from_queue ?g 1
      = Inr (Some (song_of_url ''b''),
             (new_guild_data 0)\<lparr>queue := [song_of_url ''a'', song_of_url ''c'']\<rparr>)"
    by (simp only: nth rest)
  have m2: "move_song_in_queue ?g 0 2
      = Inr (True,
          (new_guild_data 0)\<lparr>queue := [song_of_url ''b'', song_of_url ''c'', song_of_url ''a'']\<rparr>)"
    by (simp add: move_song_in_queue_def py_pop_def py_insert_def)
  from r1 r2 m1 m2 show ?thesis by (intro conjI)
qed

section \<open>The seek target\<close>

text \<open>
  C7, as the code has it. For a song of positive duration the target is clamped into
  \<^verbatim>\<open>[0, max(0, duration - 5)]\<close>: the result is \<^verbatim>\<open>max(0, min(target, max(0, duration - 5)))\<close>,
  so a target inside the range is kept, one below becomes 0 and one above becomes the
  upper end. For a song whose duration is unknown (0, the default of \<^verbatim>\<open>Song\<close>) or
  negative the upper bound is not applied: the result is \<^verbatim>\<open>max(0, target)\<close>. For every
  song a negative target becomes 0 and a target equal to the duration becomes
  \<^verbatim>\<open>max(0, duration - 5)\<close>.
\<close>

theorem seek_clamp_range:
  "seek_clamp s t =
     (if duration s > 0 then max 0 (min t (max 0 (duration s - 5))) else max 0 t)
   \<and> (duration s > 0 \<longrightarrow> 0 \<le> seek_clamp s t \<and> seek_clamp s t \<le> max 0 (duration s - 5))
   \<and> (duration s > 0 \<and> 0 \<le> t \<and> t \<le> max 0 (duration s - 5) \<longrightarrow> seek_clamp s t = t)
   \<and> (t < 0 \<longrightarrow> seek_clamp s t = 0)
   \<and> seek_clamp s (duration s) = max 0 (duration s - 5)
   \<and> (duration s \<le> 0 \<and> 0 \<le> t \<longrightarrow> seek_clamp s t = t)"
  by (auto simp: seek_clamp_def)

theorem seek_clamp_range_witness:
  "duration ((song_of_url ''u'')\<lparr>duration := 200\<rparr>) > 0
   \<and> seek_clamp ((song_of_url ''u'')\<lparr>duration := 200\<rparr>) 300 = 195
   \<and> seek_clamp ((song_of_url ''u'')\<lparr>duration := 200\<rparr>) 30 = 30
   \<and> seek_clamp ((song_of_url ''u'')\<lparr>duration := 200\<rparr>) (- 5) = 0
   \<and> seek_clamp ((song_of_url ''u'')\<lparr>duration := 200\<rparr>) 200 = 195
   \<and> duration (song_of_url ''u'') \<le> 0
   \<and> seek_clamp (song_of_url ''u'') 100 = 100"
  using seek_clamp_range[of "(song_of_url ''u'')\<lparr>duration := 200\<rparr>" 300]
    seek_clamp_range[of "(song_of_url ''u'')\<lparr>duration := 200\<rparr>" 30]
    seek_clamp_range[of "(song_of_url ''u'')\<lparr>duration := 200\<rparr>" "- 5"]
    seek_clamp_range[of "song_of_url ''u''" 100]
  by (simp add: seek_clamp_def song_of_url_def)

text \<open>The claim as stated fails for a song of unknown duration: the target 100 stays 100,
  outside \<^verbatim>\<open>[0, max(0, 0 - 5)] = [0, 0]\<close>.\<close>

theorem seek_clamp_unknown_duration_counterexample:
  "\<not> (0 \<le> seek_clamp (song_of_url ''u'') 100
       \<and> seek_clamp (song_of_url ''u'') 100 \<le> max 0 (duration (song_of_url ''u'') - 5))"
  by (simp add: seek_clamp_def song_of_url_def)

section \<open>The song-info cache\<close>

lemma map_of_foldl_delete:
  "map_of (foldl (\<lambda>c' k. AList.delete k c') c ks) k' =
     (if k' \<in> set ks then None else map_of c k')"
proof (induction ks arbitrary: c)
  case Nil
  then show ?case by simp
next
  case (Cons k ks)
  show ?case by (simp add: Cons.IH AList.delete_conv')
qed

lemma set_update_subset: "set (AList.update k v al) \<subseteq> insert (k, v) (set al)"
  by (induction al) auto

lemma newest_not_in_front:
  fixes f :: "'a \<times> 'b \<Rightarrow> real"
  assumes dist: "distinct (map fst c)"
    and mem: "(k, v) \<in> set c"
    and newest: "\<forall>p \<in> set c. p \<noteq> (k, v) \<longrightarrow> f p < f (k, v)"
    and n: "n < length c"
  shows "k \<notin> set (map fst (take n (sort_key f c)))"
proof
  let ?S = "sort_key f c"
  assume "k \<in> set (map fst (take n ?S))"
  then obtain p where p: "p \<in> set (take n ?S)" and fp: "fst p = k" by auto
  then obtain i where i: "i < n" "i < length ?S" and pi: "?S ! i = p"
    by (auto simp: in_set_conv_nth)
  have "p \<in> set c" using p by (auto dest: in_set_takeD)
  then have peq: "p = (k, v)"
    using dist mem fp by (metis eq_key_imp_eq_value prod.collapse)
  have nS: "n < length ?S" using n by simp
  have dS: "distinct ?S" using dist by (simp add: distinct_map)
  have "?S ! n \<noteq> ?S ! i" using dS i nS by (simp add: nth_eq_iff_index_eq)
  moreover have "?S ! n \<in> set c" using nS by (metis nth_mem set_sort)
  ultimately have lt: "f (?S ! n) < f (k, v)" using newest pi peq by auto
  have "sorted (map f ?S)" by (rule sorted_sort_key)
  then have "map f ?S ! i \<le> map f ?S ! n"
    using i nS by (intro sorted_nth_mono) simp_all
  then have "f (?S ! i) \<le> f (?S ! n)" using i nS by simp
  with lt pi peq show False by simp
qed

lemma cleanup_keeps_newest:
  assumes "distinct (map fst c)" and "(k, v) \<in> set c"
    and "\<forall>p \<in> set c. p \<noteq> (k, v) \<longrightarrow> cached_at (snd p) < cached_at v"
  shows "map_of (cleanup_cache_if_needed c) k = Some v"
proof -
  have m: "map_of c k = Some v" using assms(1,2) by simp
  show ?thesis
  proof (cases "length c > max_cache_size")
    case False
    then show ?thesis using m by (simp add: cleanup_cache_if_needed_def)
  next
    case True
    then have "100 < length c" by (simp add: max_cache_size_def)
    from newest_not_in_front[where f = "\<lambda>x. cached_at (snd x)", OF assms(1,2) _ this] assms(3)
    have "k \<notin> set (map fst (take 100 (sort_key (\<lambda>x. cached_at (snd x)) c)))" by simp
    then show ?thesis
      using True m by (simp add: cleanup_cache_if_needed_def map_of_foldl_delete Let_def)
  qed
qed

lemma store_then_cleanup:
  assumes dist: "distinct (map fst cache)"
    and older: "\<forall>p \<in> set cache. cached_at (snd p) < now2"
  shows "map_of (cleanup_cache_if_needed
            (AList.update k \<lparr>data = d, cached_at = now2\<rparr> cache)) k
         = Some \<lparr>data = d, cached_at = now2\<rparr>"
proof (rule cleanup_keeps_newest)
  let ?v = "\<lparr>data = d, cached_at = now2\<rparr>"
  show "distinct (map fst (AList.update k ?v cache))"
    using dist by (rule AList.distinct_update)
  have "map_of (AList.update k ?v cache) k = Some ?v" by (simp add: AList.update_conv')
  then show "(k, ?v) \<in> set (AList.update k ?v cache)" by (rule map_of_SomeD)
  show "\<forall>p \<in> set (AList.update k ?v cache). p \<noteq> (k, ?v) \<longrightarrow> cached_at (snd p) < cached_at ?v"
    using older set_update_subset[of k ?v cache] by auto
qed


lemma cached_lookup_miss:
  assumes "\<not> (\<exists>en. map_of cache (normalise q) = Some en \<and> now1 - cached_at en < cache_ttl)"
  shows "get_song_info_cached normalise resolve now1 now2 cache q =
     (case resolve q of
        None \<Rightarrow> (None, cache, True)
      | Some d \<Rightarrow>
          (Some d,
           cleanup_cache_if_needed
             (AList.update (normalise q) \<lparr>data = d, cached_at = now2\<rparr> cache),
           True))"
  using assms by (auto simp: get_song_info_cached_def Let_def split: option.splits)

lemma cached_lookup_hit:
  assumes "map_of cache (normalise q) = Some en" and "now1 - cached_at en < cache_ttl"
  shows "get_song_info_cached normalise resolve now1 now2 cache q = (Some (data en), cache, False)"
  using assms by (simp add: get_song_info_cached_def Let_def)

text \<open>
  C8. \<^verbatim>\<open>cache_ttl\<close> is 3600. For every way of normalising the query into the key
  (Python's \<^verbatim>\<open>lower().strip()\<close> is one): a lookup answers from the cache, without
  calling the backend, exactly when the key has an entry with
  \<^verbatim>\<open>now - cached_at < cache_ttl\<close>, and then it returns that entry's data and leaves the
  cache as it is. Otherwise (no entry, or a stale one) the backend is called: when it
  returns nothing the cache is left as it was, and when it returns data that data is
  returned and the cache is the old one with the key assigned the data and the clock read
  \<open>now2\<close> of the store, cleaned up. With distinct keys and a clock that has advanced
  since the other entries were stored, the clean-up keeps the new entry, so the entry
  stored at \<open>now2\<close> is returned as it is at \<open>now2 + cache_ttl - 1\<close> and makes the
  backend be called again at \<open>now2 + cache_ttl + 1\<close>. The same holds of an entry found
  in the cache with \<^verbatim>\<open>cached_at\<close> \<open>t\<close>: a hit at \<open>t + cache_ttl - 1\<close>, a miss at
  \<open>t + cache_ttl + 1\<close>.
\<close>

theorem get_song_info_cached_ttl:
  "cache_ttl = 3600
   \<and> (\<not> snd (snd (get_song_info_cached normalise resolve now1 now2 cache q)))
       = (\<exists>en. map_of cache (normalise q) = Some en \<and> now1 - cached_at en < cache_ttl)
   \<and> (map_of cache (normalise q) = Some en \<and> now1 - cached_at en < cache_ttl \<longrightarrow>
        get_song_info_cached normalise resolve now1 now2 cache q = (Some (data en), cache, False))
   \<and> (\<not> (\<exists>en. map_of cache (normalise q) = Some en \<and> now1 - cached_at en < cache_ttl) \<longrightarrow>
        get_song_info_cached normalise resolve now1 now2 cache q =
          (case resolve q of
             None \<Rightarrow> (None, cache, True)
           | Some d \<Rightarrow>
               (Some d,
                cleanup_cache_if_needed
                  (AList.update (normalise q) \<lparr>data = d, cached_at = now2\<rparr> cache),
                True)))
   \<and> (\<not> (\<exists>en. map_of cache (normalise q) = Some en \<and> now1 - cached_at en < cache_ttl)
        \<and> resolve q = Some d
        \<and> distinct (map fst cache) \<and> (\<forall>p \<in> set cache. cached_at (snd p) < now2) \<longrightarrow>
        (\<exists>cache'. get_song_info_cached normalise resolve now1 now2 cache q = (Some d, cache', True)
           \<and> map_of cache' (normalise q) = Some \<lparr>data = d, cached_at = now2\<rparr>
           \<and> get_song_info_cached normalise resolve' (now2 + cache_ttl - 1) now3 cache' q
               = (Some d, cache', False)
           \<and> snd (snd (get_song_info_cached normalise resolve' (now2 + cache_ttl + 1) now3
                 cache' q))))
   \<and> (map_of cache (normalise q) = Some en \<longrightarrow>
        get_song_info_cached normalise resolve (cached_at en + cache_ttl - 1) now2 cache q
          = (Some (data en), cache, False))
   \<and> (map_of cache (normalise q) = Some en \<and> resolve q = None \<longrightarrow>
        get_song_info_cached normalise resolve (cached_at en + cache_ttl + 1) now2 cache q
          = (None, cache, True))
   \<and> (map_of cache (normalise q) = Some en \<and> resolve q = Some d
        \<and> distinct (map fst cache) \<and> (\<forall>p \<in> set cache. cached_at (snd p) < now2) \<longrightarrow>
        (\<exists>cache'. get_song_info_cached normalise resolve (cached_at en + cache_ttl + 1) now2 cache q
                     = (Some d, cache', True)
           \<and> map_of cache' (normalise q) = Some \<lparr>data = d, cached_at = now2\<rparr>))"
proof (intro conjI impI)
  show "cache_ttl = 3600" by (simp add: cache_ttl_def)
next
  show "(\<not> snd (snd (get_song_info_cached normalise resolve now1 now2 cache q)))
       = (\<exists>en. map_of cache (normalise q) = Some en \<and> now1 - cached_at en < cache_ttl)"
    by (simp add: get_song_info_cached_def Let_def split: option.splits)
next
  assume "map_of cache (normalise q) = Some en \<and> now1 - cached_at en < cache_ttl"
  then show "get_song_info_cached normalise resolve now1 now2 cache q
      = (Some (data en), cache, False)"
    by (simp add: cached_lookup_hit)
next
  assume "\<not> (\<exists>en. map_of cache (normalise q) = Some en \<and> now1 - cached_at en < cache_ttl)"
  then show "get_song_info_cached normalise resolve now1 now2 cache q =
          (case resolve q of
             None \<Rightarrow> (None, cache, True)
           | Some d \<Rightarrow>
               (Some d,
                cleanup_cache_if_needed
                  (AList.update (normalise q) \<lparr>data = d, cached_at = now2\<rparr> cache),
                True))"
    by (rule cached_lookup_miss[where normalise = normalise and q = q])
next
  assume a: "\<not> (\<exists>en. map_of cache (normalise q) = Some en \<and> now1 - cached_at en < cache_ttl)
        \<and> resolve q = Some d
        \<and> distinct (map fst cache) \<and> (\<forall>p \<in> set cache. cached_at (snd p) < now2)"
  let ?k = "normalise q"
  let ?v = "\<lparr>data = d, cached_at = now2\<rparr>"
  let ?c = "cleanup_cache_if_needed (AList.update ?k ?v cache)"
  have m: "\<not> (\<exists>en. map_of cache ?k = Some en \<and> now1 - cached_at en < cache_ttl)"
    using a by (rule conjunct1)
  have g: "get_song_info_cached normalise resolve now1 now2 cache q = (Some d, ?c, True)"
    using a by (simp add: cached_lookup_miss[where normalise = normalise and q = q, OF m])
  have st: "map_of ?c ?k = Some ?v"
    using a by (intro store_then_cleanup) simp_all
  have hit: "get_song_info_cached normalise resolve' (now2 + cache_ttl - 1) now3 ?c q
      = (Some d, ?c, False)"
    using cached_lookup_hit[where normalise = normalise and q = q, OF st,
        of "now2 + cache_ttl - 1" resolve' now3]
    by simp
  have "\<not> (\<exists>en. map_of ?c ?k = Some en \<and> now2 + cache_ttl + 1 - cached_at en < cache_ttl)"
    by (simp add: st)
  then have miss: "snd (snd (get_song_info_cached normalise resolve' (now2 + cache_ttl + 1) now3
      ?c q))"
    using cached_lookup_miss[where normalise = normalise and q = q and cache = ?c
        and ?now1.0 = "now2 + cache_ttl + 1" and resolve = resolve' and ?now2.0 = now3]
    by (simp split: option.splits)
  from g st hit miss
  show "\<exists>cache'. get_song_info_cached normalise resolve now1 now2 cache q = (Some d, cache', True)
           \<and> map_of cache' (normalise q) = Some \<lparr>data = d, cached_at = now2\<rparr>
           \<and> get_song_info_cached normalise resolve' (now2 + cache_ttl - 1) now3 cache' q
               = (Some d, cache', False)
           \<and> snd (snd (get_song_info_cached normalise resolve' (now2 + cache_ttl + 1) now3
                 cache' q))"
    by (intro exI[of _ ?c] conjI)
next
  assume "map_of cache (normalise q) = Some en"
  then show "get_song_info_cached normalise resolve (cached_at en + cache_ttl - 1) now2 cache q
          = (Some (data en), cache, False)"
    by (simp add: get_song_info_cached_def Let_def)
next
  assume "map_of cache (normalise q) = Some en \<and> resolve q = None"
  then show "get_song_info_cached normalise resolve (cached_at en + cache_ttl + 1) now2 cache q
          = (None, cache, True)"
    by (simp add: get_song_info_cached_def Let_def)
next
  assume a: "map_of cache (normalise q) = Some en \<and> resolve q = Some d
        \<and> distinct (map fst cache) \<and> (\<forall>p \<in> set cache. cached_at (snd p) < now2)"
  let ?k = "normalise q"
  let ?c = "cleanup_cache_if_needed (AList.update ?k \<lparr>data = d, cached_at = now2\<rparr> cache)"
  have "get_song_info_cached normalise resolve (cached_at en + cache_ttl + 1) now2 cache q
          = (Some d, ?c, True)"
    using a by (simp add: get_song_info_cached_def Let_def)
  moreover have "map_of ?c ?k = Some \<lparr>data = d, cached_at = now2\<rparr>"
    using a by (intro store_then_cleanup) simp_all
  ultimately show "\<exists>cache'. get_song_info_cached normalise resolve (cached_at en + cache_ttl + 1)
                     now2 cache q = (Some d, cache', True)
           \<and> map_of cache' (normalise q) = Some \<lparr>data = d, cached_at = now2\<rparr>"
    by blast
qed

text \<open>The witness starts from the empty cache, with the query \<open>abc\<close>, which Python's
  \<^verbatim>\<open>lower().strip()\<close> leaves as it is: the miss at 50 stores the entry with the clock
  read 100; it is a hit at 3699 and a miss at 3701, when the new data is stored.\<close>

theorem get_song_info_cached_ttl_witness:
  "get_song_info_cached (\<lambda>s. s) (\<lambda>u. Some (1::nat)) 50 100 [] ''abc''
      = (Some 1, [(''abc'', \<lparr>data = 1, cached_at = 100\<rparr>)], True)
   \<and> map_of [(''abc'', \<lparr>data = 1::nat, cached_at = 100\<rparr>)] ''abc''
      = Some \<lparr>data = 1, cached_at = 100\<rparr>
   \<and> get_song_info_cached (\<lambda>s. s) (\<lambda>u. Some 2) (100 + 3600 - 1) 3702
        [(''abc'', \<lparr>data = 1::nat, cached_at = 100\<rparr>)] ''abc''
      = (Some 1, [(''abc'', \<lparr>data = 1, cached_at = 100\<rparr>)], False)
   \<and> get_song_info_cached (\<lambda>s. s) (\<lambda>u. None) (100 + 3600 + 1) 3702
        [(''abc'', \<lparr>data = 1::nat, cached_at = 100\<rparr>)] ''abc''
      = (None, [(''abc'', \<lparr>data = 1, cached_at = 100\<rparr>)], True)
   \<and> get_song_info_cached (\<lambda>s. s) (\<lambda>u. Some 2) (100 + 3600 + 1) 3702
        [(''abc'', \<lparr>data = 1::nat, cached_at = 100\<rparr>)] ''abc''
      = (Some 2, [(''abc'', \<lparr>data = 2, cached_at = 3702\<rparr>)], True)"
proof -
  let ?c = "[(''abc'', \<lparr>data = 1::nat, cached_at = 100\<rparr>)]"
  let ?en = "\<lparr>data = 1::nat, cached_at = 100\<rparr>"
  note T = get_song_info_cached_ttl[where normalise = "\<lambda>s. s" and q = "''abc''"
      and resolve = "\<lambda>u. Some (1::nat)" and ?now1.0 = 50 and ?now2.0 = 100
      and cache = "[]"]
  have absent: "\<not> (\<exists>en. map_of ([] :: nat song_cache) ''abc'' = Some en
      \<and> 50 - cached_at en < cache_ttl)"
    by simp
  have "get_song_info_cached (\<lambda>s. s) (\<lambda>u. Some (1::nat)) 50 100 [] ''abc'' =
          (case Some (1::nat) of
             None \<Rightarrow> (None, [], True)
           | Some d \<Rightarrow>
               (Some d,
                cleanup_cache_if_needed
                  (AList.update ''abc'' \<lparr>data = d, cached_at = 100\<rparr> []),
                True))"
    by (rule T[THEN conjunct2, THEN conjunct2, THEN conjunct2, THEN conjunct1, THEN mp,
          OF absent])
  then have store: "get_song_info_cached (\<lambda>s. s) (\<lambda>u. Some (1::nat)) 50 100 [] ''abc''
      = (Some 1, ?c, True)"
    by (simp add: cleanup_cache_if_needed_def max_cache_size_def)
  have k: "map_of ?c ''abc'' = Some ?en" by simp
  note U = get_song_info_cached_ttl[where normalise = "\<lambda>s. s" and q = "''abc''"
      and resolve = "\<lambda>u. Some (2::nat)" and ?now2.0 = 3702 and cache = ?c and en = ?en]
  have "get_song_info_cached (\<lambda>s. s) (\<lambda>u. Some 2) (cached_at ?en + cache_ttl - 1) 3702 ?c ''abc''
      = (Some (data ?en), ?c, False)"
    by (rule U[THEN conjunct2, THEN conjunct2, THEN conjunct2,
          THEN conjunct2, THEN conjunct2, THEN conjunct1, THEN mp, OF k])
  then have hit: "get_song_info_cached (\<lambda>s. s) (\<lambda>u. Some 2) (100 + 3600 - 1) 3702 ?c ''abc''
      = (Some 1, ?c, False)"
    by (simp add: cache_ttl_def)
  have miss: "get_song_info_cached (\<lambda>s. s) (\<lambda>u. None) (100 + 3600 + 1) 3702 ?c ''abc''
      = (None, ?c, True)"
    by (simp add: get_song_info_cached_def cache_ttl_def)
  have fresh: "get_song_info_cached (\<lambda>s. s) (\<lambda>u. Some 2) (100 + 3600 + 1) 3702 ?c ''abc''
      = (Some 2, [(''abc'', \<lparr>data = 2, cached_at = 3702\<rparr>)], True)"
    by (simp add: get_song_info_cached_def cache_ttl_def cleanup_cache_if_needed_def
          max_cache_size_def)
  from store k hit miss fresh show ?thesis by (intro conjI)
qed

section \<open>Skipping a candidate\<close>

lemma add_to_history_frame:
  "queue (add_to_history g s) = queue g"
  "loop_mode (add_to_history g s) = loop_mode g"
  "current (add_to_history g s) = current g"
  "start_time (add_to_history g s) = start_time g"
  "voice_client (add_to_history g s) = voice_client g"
  "seeking (add_to_history g s) = seeking g"
  "seek_offset (add_to_history g s) = seek_offset g"
  by (simp_all add: add_to_history_def Let_def)

lemma loop_backup_add_to_history:
  "loop_backup g \<noteq> [] \<Longrightarrow> loop_backup (add_to_history g s) \<noteq> []"
  by (simp add: add_to_history_def Let_def)


lemma gd_handle_song_skip:
  "gd (handle_song_skip e w s) =
     (if loop_mode (gd w) = ''song'' then (gd w)\<lparr>loop_mode := ''off''\<rparr>
      else add_to_history (gd w) s)"
  by (simp add: handle_song_skip_def Let_def emit_def add_to_history_frame)

lemma log_handle_song_skip:
  "log (handle_song_skip e w s) =
     log w @ (if music_cog e \<and> music_channel e then [SongSkipped (title s)] else [])"
  by (simp add: handle_song_skip_def Let_def emit_def)

lemma calls_handle_song_skip: "calls (handle_song_skip e w s) = calls w"
  by (simp add: handle_song_skip_def Let_def emit_def)

lemma extract_from_all_fail:
  "(\<forall>n<r. no_stream_url (get_song_info e (calls w + n) (webpage_url s))) \<Longrightarrow>
     extract_from e r w s = (False, handle_song_skip e (w\<lparr>calls := calls w + r\<rparr>) s)"
proof (induction r arbitrary: w)
  case 0
  then show ?case by simp
next
  case (Suc r)
  have first: "no_stream_url (get_song_info e (calls w) (webpage_url s))"
    using Suc.prems[rule_format, of 0] by simp
  have rest: "\<forall>n<r. no_stream_url
      (get_song_info e (calls (w\<lparr>calls := Suc (calls w)\<rparr>) + n) (webpage_url s))"
    using Suc.prems by auto
  show ?case
    using first Suc.IH[OF rest] by (simp add: Let_def)
qed





section \<open>Giving up after ten candidates\<close>

lemma candidates_next:
  assumes "candidates (Suc r) g"
  shows "\<exists>s g'. get_next_song rnd g = (Some s, g')
           \<and> loop_mode g' = loop_mode g \<and> loop_backup g' = loop_backup g
           \<and> voice_client g' = voice_client g
           \<and> (r \<le> length (queue g') \<or> (loop_mode g = ''queue'' \<and> loop_backup g \<noteq> []))"
proof (cases "loop_mode g = ''song'' \<and> current g \<noteq> None")
  case True
  then show ?thesis using assms by (auto simp: get_next_song_cases candidates_def)
next
  case False
  show ?thesis
  proof (cases "queue g")
    case Nil
    then have "loop_mode g = ''queue'' \<and> loop_backup g \<noteq> []"
      using assms by (simp add: candidates_def)
    then show ?thesis using False Nil by (simp add: get_next_song_cases Let_def)
  next
    case (Cons a q)
    then show ?thesis using False assms by (auto simp: get_next_song_cases candidates_def)
  qed
qed

lemma candidates_after_skip:
  assumes "r \<le> length (queue g') \<or> (loop_mode g' = ''queue'' \<and> loop_backup g' \<noteq> [])"
  shows "candidates r (if loop_mode g' = ''song'' then g'\<lparr>loop_mode := ''off''\<rparr>
                       else add_to_history g' s)"
  using assms
  by (auto simp: candidates_def add_to_history_frame loop_backup_add_to_history)

lemma handle_max_retries_exceeded_facts:
  "current (gd (handle_max_retries_exceeded e w)) = None"
  "start_time (gd (handle_max_retries_exceeded e w)) = None"
  "voice_client (gd (handle_max_retries_exceeded e w)) = voice_client (gd w)"
  "calls (handle_max_retries_exceeded e w) = calls w"
  "log (handle_max_retries_exceeded e w) =
     log w @ SaveGuildQueue # (if music_cog e \<and> music_channel e then [PlaybackStopped] else [])"
  by (simp_all add: handle_max_retries_exceeded_def Let_def emit_def)

lemma play_loop_all_fail:
  assumes fail: "\<forall>n u. no_stream_url (get_song_info e n u)"
  shows "candidates r (gd w) \<Longrightarrow>
     current (gd (play_loop e r w)) = None
     \<and> start_time (gd (play_loop e r w)) = None
     \<and> voice_client (gd (play_loop e r w)) = voice_client (gd w)
     \<and> calls (play_loop e r w) = calls w + max_retries * r
     \<and> count_list (log (play_loop e r w)) PlaybackStopped
         = count_list (log w) PlaybackStopped + (if music_cog e \<and> music_channel e then 1 else 0)
     \<and> count_list (log (play_loop e r w)) SaveGuildQueue
         = count_list (log w) SaveGuildQueue + 1
     \<and> length (log (play_loop e r w))
         = length (log w) + (if music_cog e \<and> music_channel e then r + 2 else 1)"
proof (induction r arbitrary: w)
  case 0
  show ?case by (simp add: handle_max_retries_exceeded_facts)
next
  case (Suc r)
  from candidates_next[OF Suc.prems, of "rng e (calls w)"]
  obtain s g' where nxt: "get_next_song (rng e (calls w)) (gd w) = (Some s, g')"
    and lm: "loop_mode g' = loop_mode (gd w)" and lb: "loop_backup g' = loop_backup (gd w)"
    and vo: "voice_client g' = voice_client (gd w)"
    and c: "r \<le> length (queue g') \<or> (loop_mode (gd w) = ''queue'' \<and> loop_backup (gd w) \<noteq> [])"
    by blast
  let ?w2 = "handle_song_skip e (w\<lparr>gd := g', calls := calls w + max_retries\<rparr>) s"
  have ex: "extract_and_play_song e (w\<lparr>gd := g'\<rparr>) s = (False, ?w2)"
    using fail extract_from_all_fail[of max_retries e "w\<lparr>gd := g'\<rparr>" s]
    by (simp add: extract_and_play_song_def)
  have step: "play_loop e (Suc r) w = play_loop e r ?w2"
    by (simp add: nxt ex)
  have g2: "gd ?w2 = (if loop_mode g' = ''song'' then g'\<lparr>loop_mode := ''off''\<rparr>
                      else add_to_history g' s)"
    by (simp add: gd_handle_song_skip)
  have cand: "candidates r (gd ?w2)"
    unfolding g2 using c lm lb by (intro candidates_after_skip) simp
  have v: "voice_client (gd ?w2) = voice_client (gd w)"
    by (simp add: g2 add_to_history_frame vo)
  have l: "log ?w2 = log w @ (if music_cog e \<and> music_channel e
                               then [SongSkipped (title s)] else [])"
    by (simp add: log_handle_song_skip)
  have k: "calls ?w2 = calls w + max_retries"
    by (simp add: calls_handle_song_skip)
  from Suc.IH[OF cand] show ?case
    unfolding step v l k by simp
qed

lemma play_next_runs_loop:
  assumes "\<not> seeking (gd w)" and "voice_client (gd w) = Some vc" and "is_connected vc"
    and "current (gd w) = None \<or> \<not> (is_playing vc \<or> is_paused vc)"
  shows "play_next e w = play_loop e max_skip_attempts w"
  using assms by (auto simp: play_next_def Let_def)

lemma play_next_all_fail:
  assumes "\<not> seeking (gd w)" and "voice_client (gd w) = Some vc" and "is_connected vc"
    and "current (gd w) = None \<or> \<not> (is_playing vc \<or> is_paused vc)"
    and "\<forall>n u. no_stream_url (get_song_info e n u)"
    and "max_skip_attempts \<le> length (queue (gd w))
         \<or> (loop_mode (gd w) = ''queue'' \<and> loop_backup (gd w) \<noteq> [])"
  shows "max_skip_attempts = 10
     \<and> current (gd (play_next e w)) = None
     \<and> start_time (gd (play_next e w)) = None
     \<and> voice_client (gd (play_next e w)) = voice_client (gd w)
     \<and> calls (play_next e w) = calls w + 30
     \<and> count_list (log (play_next e w)) PlaybackStopped
         = count_list (log w) PlaybackStopped + (if music_cog e \<and> music_channel e then 1 else 0)
     \<and> count_list (log (play_next e w)) SaveGuildQueue
         = count_list (log w) SaveGuildQueue + 1
     \<and> length (log (play_next e w))
         = length (log w) + (if music_cog e \<and> music_channel e then 12 else 1)"
proof -
  have c: "candidates max_skip_attempts (gd w)"
    using assms(6) by (simp add: candidates_def)
  from play_loop_all_fail[OF assms(5) c]
  show ?thesis
    unfolding play_next_runs_loop[OF assms(1-4)]
    by (simp add: max_skip_attempts_def max_retries_def)
qed

text \<open>
  C4, as the code has it. \<^verbatim>\<open>play_next\<close> is entered with a live voice connection, not
  seeking and not already playing; every extraction fails; the candidates do not run out.
  Then all \<^verbatim>\<open>max_skip_attempts\<close> = 10 iterations run (30 extraction calls) and
  \<^verbatim>\<open>play_next\<close> gives up: \<^verbatim>\<open>current\<close> and \<^verbatim>\<open>start_time\<close> are \<^verbatim>\<open>None\<close>, the voice
  client is as it was, one save of the queue is requested, and the "Playback Stopped"
  message is sent once when the music cog is loaded and a music channel is found, and
  not at all otherwise.
\<close>

theorem play_next_gives_up:
  assumes "\<not> seeking (gd w)" and "voice_client (gd w) = Some vc" and "is_connected vc"
    and "current (gd w) = None \<or> \<not> (is_playing vc \<or> is_paused vc)"
    and "\<forall>n u. no_stream_url (get_song_info e n u)"
    and "max_skip_attempts \<le> length (queue (gd w))
         \<or> (loop_mode (gd w) = ''queue'' \<and> loop_backup (gd w) \<noteq> [])"
  shows "max_skip_attempts = 10
     \<and> current (gd (play_next e w)) = None
     \<and> start_time (gd (play_next e w)) = None
     \<and> voice_client (gd (play_next e w)) = voice_client (gd w)
     \<and> calls (play_next e w) = calls w + 30
     \<and> count_list (log (play_next e w)) PlaybackStopped
         = count_list (log w) PlaybackStopped + (if music_cog e \<and> music_channel e then 1 else 0)
     \<and> count_list (log (play_next e w)) SaveGuildQueue
         = count_list (log w) SaveGuildQueue + 1
     \<and> length (log (play_next e w))
         = length (log w) + (if music_cog e \<and> music_channel e then 12 else 1)"
  using assms by (rule play_next_all_fail)

lemma stuck_sys_ready:
  "\<not> seeking (gd stuck_sys)" "voice_client (gd stuck_sys) = Some live_voice" "is_connected live_voice"
  "current (gd stuck_sys) = None"
  "loop_mode (gd stuck_sys) = ''queue'' \<and> loop_backup (gd stuck_sys) \<noteq> []"
  "log stuck_sys = []" "calls stuck_sys = 0"
  by (simp_all add: stuck_sys_def new_guild_data_def live_voice_def)

theorem play_next_gives_up_witness:
  "\<not> seeking (gd stuck_sys) \<and> voice_client (gd stuck_sys) = Some live_voice
   \<and> is_connected live_voice \<and> current (gd stuck_sys) = None
   \<and> (\<forall>n u. no_stream_url (get_song_info failing_env n u))
   \<and> loop_mode (gd stuck_sys) = ''queue'' \<and> loop_backup (gd stuck_sys) \<noteq> []
   \<and> current (gd (play_next failing_env stuck_sys)) = None
   \<and> start_time (gd (play_next failing_env stuck_sys)) = None
   \<and> calls (play_next failing_env stuck_sys) = 30
   \<and> count_list (log (play_next failing_env stuck_sys)) PlaybackStopped = 1
   \<and> count_list (log (play_next failing_env stuck_sys)) SaveGuildQueue = 1
   \<and> length (log (play_next failing_env stuck_sys)) = 12"
proof -
  have f: "\<forall>n u. no_stream_url (get_song_info failing_env n u)"
    by (simp add: failing_env_def no_stream_url_def)
  have c: "current (gd stuck_sys) = None \<or> \<not> (is_playing live_voice \<or> is_paused live_voice)"
    by (simp add: stuck_sys_ready)
  have q: "max_skip_attempts \<le> length (queue (gd stuck_sys))
         \<or> (loop_mode (gd stuck_sys) = ''queue'' \<and> loop_backup (gd stuck_sys) \<noteq> [])"
    by (simp add: stuck_sys_ready)
  have ch: "music_cog failing_env \<and> music_channel failing_env"
    by (simp add: failing_env_def)
  from play_next_gives_up[OF stuck_sys_ready(1,2,3) c f q] f ch
  show ?thesis by (simp add: stuck_sys_ready)
qed

text \<open>The claim as stated fails when no music channel is found: all ten candidates fail,
  the queue is saved, and no "Playback Stopped" message is sent.\<close>

theorem play_next_gives_up_silently_counterexample:
  "(\<forall>n u. no_stream_url (get_song_info (failing_env\<lparr>music_channel := False\<rparr>) n u))
   \<and> calls (play_next (failing_env\<lparr>music_channel := False\<rparr>) stuck_sys) = 30
   \<and> current (gd (play_next (failing_env\<lparr>music_channel := False\<rparr>) stuck_sys)) = None
   \<and> log (play_next (failing_env\<lparr>music_channel := False\<rparr>) stuck_sys) = [SaveGuildQueue]
   \<and> count_list (log (play_next (failing_env\<lparr>music_channel := False\<rparr>) stuck_sys))
        PlaybackStopped = 0"
proof -
  let ?e = "failing_env\<lparr>music_channel := False\<rparr>"
  have f: "\<forall>n u. no_stream_url (get_song_info ?e n u)"
    by (simp add: failing_env_def no_stream_url_def)
  have c: "current (gd stuck_sys) = None \<or> \<not> (is_playing live_voice \<or> is_paused live_voice)"
    by (simp add: stuck_sys_ready)
  have q: "max_skip_attempts \<le> length (queue (gd stuck_sys))
         \<or> (loop_mode (gd stuck_sys) = ''queue'' \<and> loop_backup (gd stuck_sys) \<noteq> [])"
    by (simp add: stuck_sys_ready)
  have ch: "\<not> (music_cog ?e \<and> music_channel ?e)" by simp
  from play_next_all_fail[OF stuck_sys_ready(1,2,3) c f q] ch
  have r: "calls (play_next ?e stuck_sys) = 30"
    "current (gd (play_next ?e stuck_sys)) = None"
    "count_list (log (play_next ?e stuck_sys)) SaveGuildQueue = 1"
    "length (log (play_next ?e stuck_sys)) = 1"
    "count_list (log (play_next ?e stuck_sys)) PlaybackStopped = 0"
    by (simp_all add: stuck_sys_ready)
  from r(3,4) have l: "log (play_next ?e stuck_sys) = [SaveGuildQueue]"
    by (cases "log (play_next ?e stuck_sys)") (auto split: if_splits)
  from f r l show ?thesis by simp
qed

section \<open>Recovery from a lost connection\<close>














lemma resume_requeues:
  "current (gd w) = Some s \<Longrightarrow>
     resume_playback_after_reconnect e w = play_next e (w\<lparr>gd := requeue_current (gd w) s\<rparr>)"
  by (simp add: resume_playback_after_reconnect_def)
















end
